theory Spec2Isabelle
  imports Main "HOL-Library.Char_ord" "HOL-Library.List_Lexorder" "HOL-Library.Multiset"
    "HOL-Library.Sublist"
begin

section \<open>The course catalog of ProjectTwo.cpp\<close>

text \<open>
  The catalog is an unbalanced binary search tree of course records, keyed by the course
  number. A \<^verbatim>\<open>std::string\<close> is a \<^typ>\<open>string\<close>; its \<^verbatim>\<open>operator<\<close> is the
  lexicographic order of the bytes read as unsigned values, a proper prefix being smaller,
  which is the order \<^theory_text>\<open>List_Lexorder\<close> puts on lists over the order
  \<^theory_text>\<open>Char_ord\<close> puts on characters. A \<^verbatim>\<open>std::vector<string>\<close> is a list.
\<close>

subsection \<open>Data model\<close>

text \<open>\<^verbatim>\<open>struct Course\<close> (lines 8 to 12).\<close>

record Course =
  courseNumber :: string
  courseTitle :: string
  prerequisites :: "string list"

text \<open>
  \<^verbatim>\<open>struct TreeNode\<close> (lines 15 to 22). A \<^verbatim>\<open>TreeNode*\<close> is either
  \<^verbatim>\<open>nullptr\<close> or the address of a node that nothing else points to (every node is
  made by \<^verbatim>\<open>new\<close> in \<^verbatim>\<open>insertIntoBST\<close> and attached once), so the pointer
  structure is a tree and is modelled as one.
\<close>

datatype TreeNode =
  Null
  | Node (course: Course) (left: TreeNode) (right: TreeNode)

subsection \<open>Insertion and search\<close>

text \<open>
  \<^verbatim>\<open>insertIntoBST\<close> (lines 25 to 38). The source overwrites the child link of the
  node it descends through and returns the same root; the model returns the updated tree.
\<close>

fun insertIntoBST :: "TreeNode \<Rightarrow> Course \<Rightarrow> TreeNode" where
  "insertIntoBST Null c = Node c Null Null"
| "insertIntoBST (Node x l r) c =
     (if courseNumber c < courseNumber x
      then Node x (insertIntoBST l c) r
      else Node x l (insertIntoBST r c))"

text \<open>
  \<^verbatim>\<open>searchBST\<close> (lines 41 to 55). The result \<^verbatim>\<open>Course*\<close> is \<^verbatim>\<open>nullptr\<close>
  (\<^term>\<open>None\<close>) or points to the record stored in the node where the search stopped.
\<close>

fun searchBST :: "TreeNode \<Rightarrow> string \<Rightarrow> Course option" where
  "searchBST Null k = None"
| "searchBST (Node x l r) k =
     (if courseNumber x = k then Some x
      else if k < courseNumber x then searchBST l k
      else searchBST r k)"

subsection \<open>In-order traversal\<close>

text \<open>
  \<^verbatim>\<open>displayCoursesInOrder\<close> (lines 109 to 125) visits the left subtree, the node and
  the right subtree, and writes each visited record to the console.
  \<^term>\<open>traverseInOrder\<close> is the sequence of the records in the order of the visits;
  \<^term>\<open>displayCoursesInOrder\<close> is the text written.
\<close>

fun traverseInOrder :: "TreeNode \<Rightarrow> Course list" where
  "traverseInOrder Null = []"
| "traverseInOrder (Node x l r) = traverseInOrder l @ [x] @ traverseInOrder r"

text \<open>The range-based loop over the prerequisites (lines 115 to 117).\<close>

fun print_prereqs :: "string list \<Rightarrow> string" where
  "print_prereqs [] = []"
| "print_prereqs (p # ps) = p @ '' '' @ print_prereqs ps"

text \<open>The lines written for one record (lines 112 to 122); \<^verbatim>\<open>endl\<close> is a newline.\<close>

definition print_course :: "Course \<Rightarrow> string" where
  "print_course c =
     courseNumber c @ '': '' @ courseTitle c @ [CHR 0x0A] @
     (if prerequisites c \<noteq> []
      then ''Prerequisites: '' @ print_prereqs (prerequisites c) @ [CHR 0x0A]
      else ''Prerequisites: None'' @ [CHR 0x0A])"

fun displayCoursesInOrder :: "TreeNode \<Rightarrow> string" where
  "displayCoursesInOrder Null = []"
| "displayCoursesInOrder (Node x l r) =
     displayCoursesInOrder l @ print_course x @ displayCoursesInOrder r"

subsection \<open>Reading delimited text\<close>

text \<open>
  The state of an input stream (\<^verbatim>\<open>istringstream\<close>, \<^verbatim>\<open>ifstream\<close>): the
  characters not yet read and the two state bits \<^verbatim>\<open>getline\<close> sets.
\<close>

record istream =
  unread :: string
  eofbit :: bool
  failbit :: bool

text \<open>A stream opened on a text: nothing read, no bit set.\<close>

definition open_stream :: "string \<Rightarrow> istream" where
  "open_stream str = \<lparr>unread = str, eofbit = False, failbit = False\<rparr>"

text \<open>
  The extraction loop of \<^verbatim>\<open>std::getline(is, token, delim)\<close>: characters are moved to
  the token until the delimiter is met (it is extracted and dropped) or the input ends.
  The result is the token, the characters left, and whether the end of the input was hit.
\<close>

fun extract_until :: "char \<Rightarrow> string \<Rightarrow> string \<times> string \<times> bool" where
  "extract_until d [] = ([], [], True)"
| "extract_until d (c # cs) =
     (if c = d then ([], cs, False)
      else (case extract_until d cs of (tok, rest, e) \<Rightarrow> (c # tok, rest, e)))"

text \<open>
  \<^verbatim>\<open>std::getline(is, token, delim)\<close>, with the value of the stream tested as a
  condition (\<^verbatim>\<open>!fail()\<close>): \<^term>\<open>None\<close> when the condition is false. A stream that
  is not good fails at once; a good stream fails when no character at all, not even a
  delimiter, could be extracted, which is when nothing is left to read.
\<close>

definition getline :: "istream \<Rightarrow> char \<Rightarrow> string option \<times> istream" where
  "getline s d =
     (if eofbit s \<or> failbit s then (None, s\<lparr>failbit := True\<rparr>)
      else if unread s = [] then (None, s\<lparr>eofbit := True, failbit := True\<rparr>)
      else (case extract_until d (unread s) of
              (tok, rest, e) \<Rightarrow> (Some tok, \<lparr>unread = rest, eofbit = e, failbit = False\<rparr>)))"

lemma extract_until_length:
  "extract_until d cs = (tok, rest, e) \<Longrightarrow> length rest \<le> length cs"
  by (induction cs arbitrary: tok rest e) (auto split: if_splits prod.splits)

lemma extract_until_shorter:
  "cs \<noteq> [] \<Longrightarrow> extract_until d cs = (tok, rest, e) \<Longrightarrow> length rest < length cs"
  by (cases cs) (auto split: if_splits prod.splits dest: extract_until_length)

lemma getline_shorter:
  "getline s d = (Some tok, s') \<Longrightarrow> length (unread s') < length (unread s)"
  by (auto simp: getline_def split: if_splits prod.splits dest: extract_until_shorter)

text \<open>The loop of \<^verbatim>\<open>splitString\<close> (lines 63 to 65).\<close>

function split_loop :: "istream \<Rightarrow> char \<Rightarrow> string list \<Rightarrow> string list" where
  "split_loop s d tokens =
     (case getline s d of
        (None, s') \<Rightarrow> tokens
      | (Some token, s') \<Rightarrow> split_loop s' d (tokens @ [token]))"
  by pat_completeness auto
termination
  by (relation "measure (\<lambda>(s, d, tokens). length (unread s))")
     (auto dest: getline_shorter [OF sym])

declare split_loop.simps [simp del]

text \<open>\<^verbatim>\<open>splitString\<close> (lines 58 to 68).\<close>

definition splitString :: "string \<Rightarrow> char \<Rightarrow> string list" where
  "splitString str delimiter = split_loop (open_stream str) delimiter []"

subsection \<open>Loading\<close>

text \<open>The loop that copies the fields from index 2 on (lines 96 to 98).\<close>

function push_prerequisites :: "string list \<Rightarrow> nat \<Rightarrow> string list \<Rightarrow> string list" where
  "push_prerequisites tokens i ps =
     (if i < length tokens then push_prerequisites tokens (i + 1) (ps @ [tokens ! i])
      else ps)"
  by pat_completeness auto
termination
  by (relation "measure (\<lambda>(tokens, i, ps). length tokens - i)") auto

declare push_prerequisites.simps [simp del]

text \<open>
  The part of the loader's loop body that turns one line into a record (lines 85 to 98):
  \<^term>\<open>None\<close> is the \<^verbatim>\<open>continue\<close> of a line with fewer than two fields, taken
  before any record is declared.
\<close>

definition parse_line :: "string \<Rightarrow> Course option" where
  "parse_line line =
     (let tokens = splitString line (CHR '','') in
      if length tokens < 2 then None
      else Some \<lparr>courseNumber = tokens ! 0, courseTitle = tokens ! 1,
                 prerequisites = push_prerequisites tokens 2 []\<rparr>)"

text \<open>The whole loop body (lines 85 to 100): the tree after the line.\<close>

definition load_line :: "TreeNode \<Rightarrow> string \<Rightarrow> TreeNode" where
  "load_line root line =
     (case parse_line line of None \<Rightarrow> root | Some c \<Rightarrow> insertIntoBST root c)"

text \<open>The loader's loop (lines 84 to 101) on the stream of the open file.\<close>

function load_loop :: "istream \<Rightarrow> TreeNode \<Rightarrow> TreeNode" where
  "load_loop file root =
     (case getline file (CHR 0x0A) of
        (None, file') \<Rightarrow> root
      | (Some line, file') \<Rightarrow> load_loop file' (load_line root line))"
  by pat_completeness auto
termination
  by (relation "measure (\<lambda>(file, root). length (unread file))")
     (auto dest: getline_shorter [OF sym])

declare load_loop.simps [simp del]

text \<open>
  \<^verbatim>\<open>loadCoursesFromFile\<close> (lines 71 to 105). The file system is the argument: the
  text of the named file, or \<^term>\<open>None\<close> when it cannot be opened. The messages the
  loader writes to the console are left out.
\<close>

definition loadCoursesFromFile :: "string option \<Rightarrow> TreeNode" where
  "loadCoursesFromFile file =
     (case file of
        None \<Rightarrow> Null
      | Some content \<Rightarrow> load_loop (open_stream content) Null)"

text \<open>The same loop body over a sequence of lines already split.\<close>

definition loadFromLines :: "string list \<Rightarrow> TreeNode" where
  "loadFromLines lines = foldl load_line Null lines"

subsection \<open>The menu\<close>

text \<open>
  \<^verbatim>\<open>displayCourseInfo\<close> (lines 128 to 147): the text written for a lookup.
\<close>

definition displayCourseInfo :: "TreeNode \<Rightarrow> string \<Rightarrow> string" where
  "displayCourseInfo root k =
     (case searchBST root k of
        None \<Rightarrow> ''Course not found.'' @ [CHR 0x0A]
      | Some c \<Rightarrow>
          ''Course Number: '' @ courseNumber c @ [CHR 0x0A] @
          ''Course Title: '' @ courseTitle c @ [CHR 0x0A] @
          (if prerequisites c \<noteq> []
           then ''Prerequisites: '' @ print_prereqs (prerequisites c) @ [CHR 0x0A]
           else ''Prerequisites: None'' @ [CHR 0x0A]))"

text \<open>
  The two variables \<^verbatim>\<open>mainMenu\<close> keeps across the iterations of its loop
  (lines 160 and 161).
\<close>

record session =
  root :: TreeNode
  dataLoaded :: bool

definition initial_session :: session where
  "initial_session = \<lparr>root = Null, dataLoaded = False\<rparr>"

text \<open>
  The three choices of the menu that touch the catalog, each as the text the menu itself
  writes once the input is read (the loader's own messages are not in it) and the session
  after it. Choice 1 (lines 186 to 193) takes the file the name stands for; choice 2 is
  lines 199 to 205, choice 3 lines 210 to 217.
\<close>

definition menu_load :: "string option \<Rightarrow> session \<Rightarrow> string \<times> session" where
  "menu_load file s =
     (let s1 = s\<lparr>root := loadCoursesFromFile file\<rparr> in
      if root s1 \<noteq> Null
      then (''Course data loaded successfully.'' @ [CHR 0x0A], s1\<lparr>dataLoaded := True\<rparr>)
      else (''Failed to load course data.'' @ [CHR 0x0A], s1))"

definition menu_list :: "session \<Rightarrow> string \<times> session" where
  "menu_list s =
     (if dataLoaded s
      then (''Courses in alphanumeric order:'' @ [CHR 0x0A] @ displayCoursesInOrder (root s), s)
      else (''Error: No data loaded.'' @ [CHR 0x0A], s))"

definition menu_details :: "string \<Rightarrow> session \<Rightarrow> string \<times> session" where
  "menu_details k s =
     (if dataLoaded s
      then (displayCourseInfo (root s) k, s)
      else (''Error: No data loaded.'' @ [CHR 0x0A], s))"

subsection \<open>The tree in the store\<close>

text \<open>
  The source holds the tree as nodes in memory that point to their children. For the
  property that a search writes nothing, the memory is made explicit: a store maps the
  addresses in use to nodes, and a \<^verbatim>\<open>TreeNode*\<close> is \<^term>\<open>None\<close>
  (\<^verbatim>\<open>nullptr\<close>) or an address.
\<close>

type_synonym addr = nat

record heap_node =
  node_course :: Course
  node_left :: "addr option"
  node_right :: "addr option"

type_synonym heap = "addr \<Rightarrow> heap_node option"

text \<open>Reading through a pointer that addresses no node is undefined in the source.\<close>

datatype fault = InvalidPointer

text \<open>
  One read of the node a pointer addresses (\<^verbatim>\<open>root->course\<close>, \<^verbatim>\<open>root->left\<close>,
  \<^verbatim>\<open>root->right\<close>): the node or the fault, and the store after the read.
\<close>

definition load_node :: "addr \<Rightarrow> heap \<Rightarrow> (fault + heap_node) \<times> heap" where
  "load_node a h = (case h a of None \<Rightarrow> (Inl InvalidPointer, h) | Some n \<Rightarrow> (Inr n, h))"

text \<open>
  \<^verbatim>\<open>searchBST\<close> (lines 41 to 55) on the store. The store is handed from each memory
  access to the next step and returned with the result, which is the fault or the
  \<^verbatim>\<open>Course*\<close>: null, or the address of the node whose record
  \<^verbatim>\<open>&root->course\<close> points into. On a store whose links run in a cycle the
  recursion need not end; not returning is \<^term>\<open>None\<close>.
\<close>

partial_function (option) searchBST_heap ::
  "addr option \<Rightarrow> string \<Rightarrow> heap \<Rightarrow> ((fault + addr option) \<times> heap) option" where
  "searchBST_heap root_ptr k h =
     (case root_ptr of
        None \<Rightarrow> Some (Inr None, h)
      | Some a \<Rightarrow>
          (case load_node a h of
             (Inl e, h1) \<Rightarrow> Some (Inl e, h1)
           | (Inr n, h1) \<Rightarrow>
               if courseNumber (node_course n) = k then Some (Inr (Some a), h1)
               else if k < courseNumber (node_course n) then searchBST_heap (node_left n) k h1
               else searchBST_heap (node_right n) k h1))"

subsection \<open>Notions the properties are stated with\<close>

text \<open>A sequence of insertions into a tree, in order.\<close>

definition insert_all :: "TreeNode \<Rightarrow> Course list \<Rightarrow> TreeNode" where
  "insert_all t cs = foldl insertIntoBST t cs"

text \<open>
  The ordering invariant of the data model: at every node, the identifiers of the left
  subtree are strictly smaller and those of the right subtree are greater or equal.
\<close>

fun bst_inv :: "TreeNode \<Rightarrow> bool" where
  "bst_inv Null = True"
| "bst_inv (Node x l r) =
     ((\<forall>c \<in> set (traverseInOrder l). courseNumber c < courseNumber x) \<and>
      (\<forall>c \<in> set (traverseInOrder r). courseNumber x \<le> courseNumber c) \<and>
      bst_inv l \<and> bst_inv r)"

text \<open>
  Positions in a tree: the child links followed from the root. \<^term>\<open>node_at\<close> reads
  the record stored at a position, if a node is there.
\<close>

datatype link = GoLeft | GoRight

fun node_at :: "TreeNode \<Rightarrow> link list \<Rightarrow> Course option" where
  "node_at Null p = None"
| "node_at (Node x l r) [] = Some x"
| "node_at (Node x l r) (GoLeft # p) = node_at l p"
| "node_at (Node x l r) (GoRight # p) = node_at r p"

text \<open>The links \<^verbatim>\<open>insertIntoBST\<close> follows before it reaches a null pointer.\<close>

fun insert_path :: "TreeNode \<Rightarrow> Course \<Rightarrow> link list" where
  "insert_path Null c = []"
| "insert_path (Node x l r) c =
     (if courseNumber c < courseNumber x
      then GoLeft # insert_path l c
      else GoRight # insert_path r c)"

text \<open>
  A store holds a tree at a pointer: the null pointer stands for the empty tree, and an
  address for the node stored there, with its record and the trees at its two links.
\<close>

fun tree_at :: "heap \<Rightarrow> addr option \<Rightarrow> TreeNode \<Rightarrow> bool" where
  "tree_at h p Null = (p = None)"
| "tree_at h p (Node x l r) =
     (case p of
        None \<Rightarrow> False
      | Some a \<Rightarrow>
          (case h a of
             None \<Rightarrow> False
           | Some n \<Rightarrow>
               node_course n = x \<and> tree_at h (node_left n) l \<and> tree_at h (node_right n) r))"

text \<open>A store of two nodes for the examples: B1 at address 1, and A at address 2 to its left.\<close>

definition example_store :: heap where
  "example_store = (\<lambda>a. None)
     (1 := Some \<lparr>node_course = \<lparr>courseNumber = ''B'', courseTitle = ''B1'', prerequisites = []\<rparr>,
                  node_left = Some 2, node_right = None\<rparr>,
      2 := Some \<lparr>node_course = \<lparr>courseNumber = ''A'', courseTitle = ''A'', prerequisites = []\<rparr>,
                  node_left = None, node_right = None\<rparr>)"

text \<open>
  Splitting as the specification words it: every delimiter ends a field and every field,
  empty or not, is kept, so that a text with \<open>n\<close> delimiters has \<open>n + 1\<close> fields.
\<close>

fun split_fields :: "char \<Rightarrow> string \<Rightarrow> string list" where
  "split_fields d [] = [[]]"
| "split_fields d (c # cs) =
     (if c = d then [] # split_fields d cs
      else (case split_fields d cs of
              [] \<Rightarrow> [[c]]
            | f # fs \<Rightarrow> (c # f) # fs))"

text \<open>What the source's loop makes of those fields: a last field that is empty is lost.\<close>

definition drop_empty_last :: "string list \<Rightarrow> string list" where
  "drop_empty_last fs = (if fs \<noteq> [] \<and> last fs = [] then butlast fs else fs)"

text \<open>Fields put back together with the delimiter between them.\<close>

fun join_fields :: "char \<Rightarrow> string list \<Rightarrow> string" where
  "join_fields d [] = []"
| "join_fields d [f] = f"
| "join_fields d (f # g # fs) = f @ d # join_fields d (g # fs)"

section \<open>Properties\<close>

subsection \<open>The tree\<close>

lemma display_is_traversal:
  "displayCoursesInOrder t = concat (map print_course (traverseInOrder t))"
  by (induction t) simp_all

lemma set_traverse_insert:
  "set (traverseInOrder (insertIntoBST t c)) = insert c (set (traverseInOrder t))"
  by (induction t) auto

lemma bst_inv_insert: "bst_inv t \<Longrightarrow> bst_inv (insertIntoBST t c)"
  by (induction t) (auto simp: set_traverse_insert)

lemma bst_inv_foldl: "bst_inv t \<Longrightarrow> bst_inv (foldl insertIntoBST t cs)"
  by (induction cs arbitrary: t) (simp_all add: bst_inv_insert)

lemma bst_inv_sorted: "bst_inv t \<Longrightarrow> sorted (map courseNumber (traverseInOrder t))"
proof (induction t)
  case Null
  then show ?case by simp
next
  case (Node x l r)
  have "courseNumber a \<le> courseNumber b"
    if "a \<in> set (traverseInOrder l)" "b \<in> set (traverseInOrder r)" for a b
  proof -
    from that Node.prems have "courseNumber a < courseNumber x" "courseNumber x \<le> courseNumber b"
      by simp_all
    then show ?thesis by simp
  qed
  with Node show ?case
    by (auto simp: sorted_append less_imp_le)
qed

lemma mset_traverse_insert:
  "mset (traverseInOrder (insertIntoBST t c)) = add_mset c (mset (traverseInOrder t))"
  by (induction t) auto

lemma mset_traverse_foldl:
  "mset (traverseInOrder (foldl insertIntoBST t cs)) = mset (traverseInOrder t) + mset cs"
  by (induction cs arbitrary: t) (simp_all add: mset_traverse_insert)

lemma search_insert:
  "searchBST (insertIntoBST t c) k =
     (case searchBST t k of
        Some x \<Rightarrow> Some x
      | None \<Rightarrow> if courseNumber c = k then Some c else None)"
  by (induction t) (auto split: option.splits)

lemma search_foldl:
  "searchBST (foldl insertIntoBST t cs) k =
     (case searchBST t k of
        Some x \<Rightarrow> Some x
      | None \<Rightarrow> find (\<lambda>c. courseNumber c = k) cs)"
  by (induction cs arbitrary: t) (auto simp: search_insert split: option.splits)

lemma node_at_insert_path: "node_at t (insert_path t c) = None"
  by (induction t) auto

lemma node_at_insert:
  "node_at (insertIntoBST t c) p = (if p = insert_path t c then Some c else node_at t p)"
proof (induction t arbitrary: p)
  case Null
  show ?case
  proof (cases p)
    case Nil
    then show ?thesis by simp
  next
    case (Cons a q)
    then show ?thesis by (cases a) simp_all
  qed
next
  case (Node x l r)
  show ?case
  proof (cases p)
    case Nil
    then show ?thesis by simp
  next
    case (Cons a q)
    then show ?thesis using Node by (cases a) auto
  qed
qed

lemma node_at_in_traverse: "node_at t p = Some x \<Longrightarrow> x \<in> set (traverseInOrder t)"
proof (induction t p rule: node_at.induct)
qed auto

lemma equal_key_goes_right:
  "bst_inv t \<Longrightarrow> node_at t p = Some x \<Longrightarrow> courseNumber c = courseNumber x \<Longrightarrow>
   prefix (p @ [GoRight]) (insert_path t c)"
proof (induction t p rule: node_at.induct)
  case (1 p)
  then show ?case by simp
next
  case (2 x l r)
  then show ?case by simp
next
  case (3 y l r p)
  then show ?case by (auto dest!: node_at_in_traverse)
next
  case (4 y l r p)
  then show ?case by (auto dest!: node_at_in_traverse)
qed

lemma search_absent:
  "k \<notin> courseNumber ` set (traverseInOrder t) \<Longrightarrow> searchBST t k = None"
  by (induction t) auto

lemma search_found:
  "searchBST t k = Some c \<Longrightarrow> courseNumber c = k \<and> (\<exists>p. node_at t p = Some c)"
proof (induction t)
  case Null
  then show ?case by simp
next
  case (Node x l r)
  show ?case
  proof (cases "courseNumber x = k")
    case True
    with Node.prems have "c = x" by simp
    then have "node_at (Node x l r) [] = Some c" by simp
    with True \<open>c = x\<close> show ?thesis by blast
  next
    case False
    show ?thesis
    proof (cases "k < courseNumber x")
      case True
      with False Node.prems have "searchBST l k = Some c" by simp
      then obtain p where "courseNumber c = k" "node_at l p = Some c" using Node.IH(1) by blast
      then have "node_at (Node x l r) (GoLeft # p) = Some c" by simp
      with \<open>courseNumber c = k\<close> show ?thesis by blast
    next
      case nl: False
      with False Node.prems have "searchBST r k = Some c" by simp
      then obtain p where "courseNumber c = k" "node_at r p = Some c" using Node.IH(2) by blast
      then have "node_at (Node x l r) (GoRight # p) = Some c" by simp
      with \<open>courseNumber c = k\<close> show ?thesis by blast
    qed
  qed
qed

subsection \<open>Claims about the tree\<close>

text \<open>
  C1. A record whose identifier equals that of a node already in the tree is put in that
  node's right subtree, and the node stays where it was with the record it had: in a tree
  built by insertions, the path of the insertion passes through every node with the same
  identifier and leaves it by its right link; at any node, an equal identifier sends the
  record to the right. After inserting B1, A and B2 (identifiers B, A, B), searching for
  B returns B1 and the traversal is A, B1, B2.
\<close>

theorem equal_identifier_goes_right:
  "(node_at (insert_all Null cs) p = Some x \<and> courseNumber c = courseNumber x \<longrightarrow>
      prefix (p @ [GoRight]) (insert_path (insert_all Null cs) c) \<and>
      node_at (insertIntoBST (insert_all Null cs) c) (insert_path (insert_all Null cs) c) = Some c \<and>
      node_at (insertIntoBST (insert_all Null cs) c) p = Some x) \<and>
   (courseNumber c = courseNumber x \<longrightarrow>
      insertIntoBST (Node x l r) c = Node x l (insertIntoBST r c)) \<and>
   insert_all Null
     [\<lparr>courseNumber = ''B'', courseTitle = ''B1'', prerequisites = []\<rparr>,
      \<lparr>courseNumber = ''A'', courseTitle = ''A'', prerequisites = []\<rparr>,
      \<lparr>courseNumber = ''B'', courseTitle = ''B2'', prerequisites = []\<rparr>] =
     Node \<lparr>courseNumber = ''B'', courseTitle = ''B1'', prerequisites = []\<rparr>
       (Node \<lparr>courseNumber = ''A'', courseTitle = ''A'', prerequisites = []\<rparr> Null Null)
       (Node \<lparr>courseNumber = ''B'', courseTitle = ''B2'', prerequisites = []\<rparr> Null Null) \<and>
   searchBST
     (insert_all Null
        [\<lparr>courseNumber = ''B'', courseTitle = ''B1'', prerequisites = []\<rparr>,
         \<lparr>courseNumber = ''A'', courseTitle = ''A'', prerequisites = []\<rparr>,
         \<lparr>courseNumber = ''B'', courseTitle = ''B2'', prerequisites = []\<rparr>]) ''B'' =
     Some \<lparr>courseNumber = ''B'', courseTitle = ''B1'', prerequisites = []\<rparr> \<and>
   traverseInOrder
     (insert_all Null
        [\<lparr>courseNumber = ''B'', courseTitle = ''B1'', prerequisites = []\<rparr>,
         \<lparr>courseNumber = ''A'', courseTitle = ''A'', prerequisites = []\<rparr>,
         \<lparr>courseNumber = ''B'', courseTitle = ''B2'', prerequisites = []\<rparr>]) =
     [\<lparr>courseNumber = ''A'', courseTitle = ''A'', prerequisites = []\<rparr>,
      \<lparr>courseNumber = ''B'', courseTitle = ''B1'', prerequisites = []\<rparr>,
      \<lparr>courseNumber = ''B'', courseTitle = ''B2'', prerequisites = []\<rparr>]"
proof -
  let ?t = "insert_all Null cs"
  have inv: "bst_inv ?t"
    by (simp add: insert_all_def bst_inv_foldl)
  have general: "prefix (p @ [GoRight]) (insert_path ?t c) \<and>
      node_at (insertIntoBST ?t c) (insert_path ?t c) = Some c \<and>
      node_at (insertIntoBST ?t c) p = Some x"
    if at: "node_at ?t p = Some x" and eq: "courseNumber c = courseNumber x"
  proof -
    have "prefix (p @ [GoRight]) (insert_path ?t c)"
      using inv at eq by (rule equal_key_goes_right)
    moreover have "node_at (insertIntoBST ?t c) (insert_path ?t c) = Some c"
      by (simp add: node_at_insert)
    moreover have "p \<noteq> insert_path ?t c"
      using at node_at_insert_path [of ?t c] by auto
    then have "node_at (insertIntoBST ?t c) p = Some x"
      using at by (simp add: node_at_insert)
    ultimately show ?thesis by simp
  qed
  have root_case: "insertIntoBST (Node x l r) c = Node x l (insertIntoBST r c)"
    if "courseNumber c = courseNumber x"
    using that by simp
  have example_tree: "insert_all Null
     [\<lparr>courseNumber = ''B'', courseTitle = ''B1'', prerequisites = []\<rparr>,
      \<lparr>courseNumber = ''A'', courseTitle = ''A'', prerequisites = []\<rparr>,
      \<lparr>courseNumber = ''B'', courseTitle = ''B2'', prerequisites = []\<rparr>] =
     Node \<lparr>courseNumber = ''B'', courseTitle = ''B1'', prerequisites = []\<rparr>
       (Node \<lparr>courseNumber = ''A'', courseTitle = ''A'', prerequisites = []\<rparr> Null Null)
       (Node \<lparr>courseNumber = ''B'', courseTitle = ''B2'', prerequisites = []\<rparr> Null Null)"
    by (simp add: insert_all_def)
  have example_search: "searchBST
     (insert_all Null
        [\<lparr>courseNumber = ''B'', courseTitle = ''B1'', prerequisites = []\<rparr>,
         \<lparr>courseNumber = ''A'', courseTitle = ''A'', prerequisites = []\<rparr>,
         \<lparr>courseNumber = ''B'', courseTitle = ''B2'', prerequisites = []\<rparr>]) ''B'' =
     Some \<lparr>courseNumber = ''B'', courseTitle = ''B1'', prerequisites = []\<rparr>"
    by (simp add: insert_all_def)
  have example_order: "traverseInOrder
     (insert_all Null
        [\<lparr>courseNumber = ''B'', courseTitle = ''B1'', prerequisites = []\<rparr>,
         \<lparr>courseNumber = ''A'', courseTitle = ''A'', prerequisites = []\<rparr>,
         \<lparr>courseNumber = ''B'', courseTitle = ''B2'', prerequisites = []\<rparr>]) =
     [\<lparr>courseNumber = ''A'', courseTitle = ''A'', prerequisites = []\<rparr>,
      \<lparr>courseNumber = ''B'', courseTitle = ''B1'', prerequisites = []\<rparr>,
      \<lparr>courseNumber = ''B'', courseTitle = ''B2'', prerequisites = []\<rparr>]"
    by (simp add: insert_all_def)
  from general root_case example_tree example_search example_order show ?thesis
    by blast
qed

theorem equal_identifier_goes_right_witness:
  "node_at
     (insert_all Null
        [\<lparr>courseNumber = ''B'', courseTitle = ''B1'', prerequisites = []\<rparr>,
         \<lparr>courseNumber = ''A'', courseTitle = ''A'', prerequisites = []\<rparr>]) [] =
     Some \<lparr>courseNumber = ''B'', courseTitle = ''B1'', prerequisites = []\<rparr> \<and>
   prefix ([] @ [GoRight])
     (insert_path
        (insert_all Null
           [\<lparr>courseNumber = ''B'', courseTitle = ''B1'', prerequisites = []\<rparr>,
            \<lparr>courseNumber = ''A'', courseTitle = ''A'', prerequisites = []\<rparr>])
        \<lparr>courseNumber = ''B'', courseTitle = ''B2'', prerequisites = []\<rparr>) \<and>
   node_at
     (insertIntoBST
        (insert_all Null
           [\<lparr>courseNumber = ''B'', courseTitle = ''B1'', prerequisites = []\<rparr>,
            \<lparr>courseNumber = ''A'', courseTitle = ''A'', prerequisites = []\<rparr>])
        \<lparr>courseNumber = ''B'', courseTitle = ''B2'', prerequisites = []\<rparr>) [] =
     Some \<lparr>courseNumber = ''B'', courseTitle = ''B1'', prerequisites = []\<rparr> \<and>
   insertIntoBST
     (Node \<lparr>courseNumber = ''B'', courseTitle = ''B1'', prerequisites = []\<rparr> Null Null)
     \<lparr>courseNumber = ''B'', courseTitle = ''B2'', prerequisites = []\<rparr> =
     Node \<lparr>courseNumber = ''B'', courseTitle = ''B1'', prerequisites = []\<rparr> Null
       (insertIntoBST Null \<lparr>courseNumber = ''B'', courseTitle = ''B2'', prerequisites = []\<rparr>)"
  using equal_identifier_goes_right
    [where cs = "[\<lparr>courseNumber = ''B'', courseTitle = ''B1'', prerequisites = []\<rparr>,
                  \<lparr>courseNumber = ''A'', courseTitle = ''A'', prerequisites = []\<rparr>]"
       and p = "[]"
       and x = "\<lparr>courseNumber = ''B'', courseTitle = ''B1'', prerequisites = []\<rparr>"
       and c = "\<lparr>courseNumber = ''B'', courseTitle = ''B2'', prerequisites = []\<rparr>"
       and l = Null and r = Null]
  by (simp add: insert_all_def)

text \<open>
  C2. Whatever records are inserted into the empty tree, in whatever order, the in-order
  traversal lists the identifiers of exactly those records, each as often as it was
  inserted, in non-decreasing lexicographic order: the list is the sorted list of the
  inserted identifiers.
\<close>

theorem traversal_is_sorted:
  "sorted (map courseNumber (traverseInOrder (insert_all Null cs))) \<and>
   mset (map courseNumber (traverseInOrder (insert_all Null cs))) = mset (map courseNumber cs) \<and>
   map courseNumber (traverseInOrder (insert_all Null cs)) = sort (map courseNumber cs)"
proof -
  let ?ids = "map courseNumber (traverseInOrder (insert_all Null cs))"
  have "bst_inv (insert_all Null cs)"
    by (simp add: insert_all_def bst_inv_foldl)
  then have ordered: "sorted ?ids"
    by (rule bst_inv_sorted)
  have "mset (traverseInOrder (insert_all Null cs)) = mset cs"
    by (simp add: insert_all_def mset_traverse_foldl)
  then have same: "mset ?ids = mset (map courseNumber cs)"
    by (metis mset_map)
  from same ordered have "sort (map courseNumber cs) = ?ids"
    by (rule properties_for_sort)
  with ordered same show ?thesis by simp
qed

text \<open>
  C3. Every tree built by insertions from the empty tree satisfies the ordering invariant
  (left identifiers strictly smaller, right identifiers greater or equal, at every node),
  and an insertion into a tree that satisfies it gives a tree that satisfies it.
\<close>

theorem ordering_invariant:
  "bst_inv (insert_all Null cs) \<and> (bst_inv t \<longrightarrow> bst_inv (insertIntoBST t c))"
  by (simp add: insert_all_def bst_inv_foldl bst_inv_insert)

theorem ordering_invariant_witness:
  "bst_inv (Node \<lparr>courseNumber = ''B'', courseTitle = ''B1'', prerequisites = []\<rparr> Null Null) \<and>
   bst_inv (insert_all Null
     [\<lparr>courseNumber = ''B'', courseTitle = ''B1'', prerequisites = []\<rparr>,
      \<lparr>courseNumber = ''A'', courseTitle = ''A'', prerequisites = []\<rparr>,
      \<lparr>courseNumber = ''B'', courseTitle = ''B2'', prerequisites = []\<rparr>]) \<and>
   bst_inv (insertIntoBST
     (Node \<lparr>courseNumber = ''B'', courseTitle = ''B1'', prerequisites = []\<rparr> Null Null)
     \<lparr>courseNumber = ''A'', courseTitle = ''A'', prerequisites = []\<rparr>)"
  using ordering_invariant
    [where cs = "[\<lparr>courseNumber = ''B'', courseTitle = ''B1'', prerequisites = []\<rparr>,
      \<lparr>courseNumber = ''A'', courseTitle = ''A'', prerequisites = []\<rparr>,
      \<lparr>courseNumber = ''B'', courseTitle = ''B2'', prerequisites = []\<rparr>]"
       and t = "Node \<lparr>courseNumber = ''B'', courseTitle = ''B1'', prerequisites = []\<rparr> Null Null"
       and c = "\<lparr>courseNumber = ''A'', courseTitle = ''A'', prerequisites = []\<rparr>"]
  by simp

lemma find_member: "c \<in> set cs \<Longrightarrow> P c \<Longrightarrow> \<exists>c'. find P cs = Some c' \<and> P c'"
  by (induction cs) auto

lemma find_first: "\<forall>a \<in> set xs. \<not> P a \<Longrightarrow> P c \<Longrightarrow> find P (xs @ c # ys) = Some c"
  by (induction xs) auto

text \<open>
  C4. After any sequence of insertions into the empty tree, a search for an identifier
  returns the first-inserted record with that identifier (the first match of the descent
  from the root), so a search for the identifier of any inserted record succeeds with a
  record of that identifier, and it returns that very record when no record inserted
  before it has the same identifier.
\<close>

theorem search_finds_first_inserted:
  "searchBST (insert_all Null cs) k = find (\<lambda>c. courseNumber c = k) cs \<and>
   (c \<in> set cs \<longrightarrow>
      (\<exists>c'. searchBST (insert_all Null cs) (courseNumber c) = Some c' \<and>
            courseNumber c' = courseNumber c)) \<and>
   (courseNumber c \<notin> courseNumber ` set xs \<longrightarrow>
      searchBST (insert_all Null (xs @ c # ys)) (courseNumber c) = Some c)"
proof -
  have first: "searchBST (insert_all Null zs) k' = find (\<lambda>c. courseNumber c = k') zs" for zs k'
    by (simp add: insert_all_def search_foldl)
  have found: "\<exists>c'. searchBST (insert_all Null cs) (courseNumber c) = Some c' \<and>
            courseNumber c' = courseNumber c" if "c \<in> set cs"
    unfolding first
    using find_member [of c cs "\<lambda>a. courseNumber a = courseNumber c"] that by simp
  have own: "searchBST (insert_all Null (xs @ c # ys)) (courseNumber c) = Some c"
    if "courseNumber c \<notin> courseNumber ` set xs"
  proof -
    from that have "\<forall>a \<in> set xs. \<not> courseNumber a = courseNumber c"
      by (metis image_eqI)
    then show ?thesis
      unfolding first
      using find_first [of xs "\<lambda>a. courseNumber a = courseNumber c" c ys] by simp
  qed
  show ?thesis
    using first [of cs k] found own by simp
qed

theorem search_finds_first_inserted_witness:
  "\<lparr>courseNumber = ''B'', courseTitle = ''B2'', prerequisites = []\<rparr> \<in>
     set [\<lparr>courseNumber = ''B'', courseTitle = ''B1'', prerequisites = []\<rparr>,
          \<lparr>courseNumber = ''A'', courseTitle = ''A'', prerequisites = []\<rparr>,
          \<lparr>courseNumber = ''B'', courseTitle = ''B2'', prerequisites = []\<rparr>] \<and>
   (\<exists>c'. searchBST
      (insert_all Null
         [\<lparr>courseNumber = ''B'', courseTitle = ''B1'', prerequisites = []\<rparr>,
          \<lparr>courseNumber = ''A'', courseTitle = ''A'', prerequisites = []\<rparr>,
          \<lparr>courseNumber = ''B'', courseTitle = ''B2'', prerequisites = []\<rparr>]) ''B'' = Some c' \<and>
      courseNumber c' = ''B'') \<and>
   ''A'' \<notin> courseNumber `
     set [\<lparr>courseNumber = ''B'', courseTitle = ''B1'', prerequisites = []\<rparr>] \<and>
   searchBST
     (insert_all Null
        ([\<lparr>courseNumber = ''B'', courseTitle = ''B1'', prerequisites = []\<rparr>] @
         \<lparr>courseNumber = ''A'', courseTitle = ''A'', prerequisites = []\<rparr> #
         [\<lparr>courseNumber = ''B'', courseTitle = ''B2'', prerequisites = []\<rparr>])) ''A'' =
     Some \<lparr>courseNumber = ''A'', courseTitle = ''A'', prerequisites = []\<rparr>"
proof -
  let ?b1 = "\<lparr>courseNumber = ''B'', courseTitle = ''B1'', prerequisites = []\<rparr>"
  let ?a = "\<lparr>courseNumber = ''A'', courseTitle = ''A'', prerequisites = []\<rparr>"
  let ?b2 = "\<lparr>courseNumber = ''B'', courseTitle = ''B2'', prerequisites = []\<rparr>"
  have member: "?b2 \<in> set [?b1, ?a, ?b2]"
    by simp
  have fresh: "courseNumber ?a \<notin> courseNumber ` set [?b1]"
    by simp
  from search_finds_first_inserted [where cs = "[?b1, ?a, ?b2]" and c = ?b2] member
  have "\<exists>c'. searchBST (insert_all Null [?b1, ?a, ?b2]) (courseNumber ?b2) = Some c' \<and>
          courseNumber c' = courseNumber ?b2"
    by blast
  moreover from search_finds_first_inserted [where c = ?a and xs = "[?b1]" and ys = "[?b2]"] fresh
  have "searchBST (insert_all Null ([?b1] @ ?a # [?b2])) (courseNumber ?a) = Some ?a"
    by blast
  ultimately show ?thesis
    using member fresh by simp
qed

lemma load_node_frame: "load_node a h = (v, h1) \<Longrightarrow> h1 = h"
  by (auto simp: load_node_def split: option.splits)

lemma searchBST_heap_frame:
  assumes "searchBST_heap p k h = Some res"
  shows "snd res = h"
proof (rule searchBST_heap.raw_induct [where P = "\<lambda>p k h res. snd res = h", OF _ assms],
    goal_cases)
  case (1 search p k h res)
  note IH = "1"(1) and body = "1"(2)
  show ?case
  proof (cases p)
    case None
    with body show ?thesis by auto
  next
    case (Some a)
    obtain v h1 where ld: "load_node a h = (v, h1)"
      by (cases "load_node a h") auto
    then have h1: "h1 = h" by (rule load_node_frame)
    show ?thesis
    proof (cases v)
      case (Inl e)
      with body Some ld h1 show ?thesis by auto
    next
      case (Inr n)
      with body Some ld h1
      have "res = (Inr (Some a), h) \<or> search (node_left n) k h = Some res \<or>
            search (node_right n) k h = Some res"
        by (auto split: if_splits)
      then show ?thesis
      proof (elim disjE)
        assume "res = (Inr (Some a), h)"
        then show ?thesis by simp
      next
        assume "search (node_left n) k h = Some res"
        then show ?thesis by (rule IH)
      next
        assume "search (node_right n) k h = Some res"
        then show ?thesis by (rule IH)
      qed
    qed
  qed
qed

lemma searchBST_heap_refines:
  "tree_at h p t \<Longrightarrow>
   \<exists>res. searchBST_heap p k h = Some (Inr res, h) \<and>
     (case res of
        None \<Rightarrow> searchBST t k = None
      | Some a \<Rightarrow> (\<exists>n. h a = Some n \<and> searchBST t k = Some (node_course n)))"
proof (induction t arbitrary: p)
  case Null
  then show ?case by (simp add: searchBST_heap.simps)
next
  case (Node x l r)
  from Node.prems obtain a n where p: "p = Some a" and n: "h a = Some n"
    and x: "node_course n = x"
    and l: "tree_at h (node_left n) l" and r: "tree_at h (node_right n) r"
    by (auto split: option.splits)
  have ld: "load_node a h = (Inr n, h)"
    using n by (simp add: load_node_def)
  show ?case
  proof (cases "courseNumber x = k")
    case True
    with p ld x n show ?thesis
      by (subst searchBST_heap.simps) simp
  next
    case False
    show ?thesis
    proof (cases "k < courseNumber x")
      case True
      with False p ld x have step: "searchBST_heap p k h = searchBST_heap (node_left n) k h"
        by (subst searchBST_heap.simps) simp
      from False True have sub: "searchBST (Node x l r) k = searchBST l k"
        by simp
      show ?thesis
        unfolding step sub by (rule Node.IH(1) [OF l])
    next
      case ge: False
      with False p ld x have step: "searchBST_heap p k h = searchBST_heap (node_right n) k h"
        by (subst searchBST_heap.simps) simp
      from False ge have sub: "searchBST (Node x l r) k = searchBST r k"
        by simp
      show ?thesis
        unfolding step sub by (rule Node.IH(2) [OF r])
    qed
  qed
qed

text \<open>
  C9. A search writes nothing: on any store and from any pointer, whenever the search
  returns, the store it leaves is the store it was given, so that no node, record or child
  link is modified. On a store that holds a tree at the pointer, the search does return,
  with no fault, and what it returns is the null pointer or the address of a node of the
  store whose record carries the identifier searched for, a pointer into the tree and not
  a copy, in agreement with the search on the tree; for an identifier that no record of
  the tree carries it is the null pointer. On the tree itself, a result is the record at
  some node of the tree, and the menu's lookup leaves the session as it found it.
\<close>

theorem search_reads_only:
  "(searchBST_heap p k h = Some res \<longrightarrow> snd res = h) \<and>
   (tree_at h p t \<longrightarrow>
      (\<exists>ptr. searchBST_heap p k h = Some (Inr ptr, h) \<and>
         (case ptr of
            None \<Rightarrow> searchBST t k = None
          | Some a \<Rightarrow>
              (\<exists>n. h a = Some n \<and> courseNumber (node_course n) = k \<and>
                   searchBST t k = Some (node_course n))))) \<and>
   (tree_at h p t \<and> k \<notin> courseNumber ` set (traverseInOrder t) \<longrightarrow>
      searchBST_heap p k h = Some (Inr None, h)) \<and>
   snd (menu_details k s) = s \<and>
   (\<forall>c. searchBST t k = Some c \<longrightarrow>
      courseNumber c = k \<and> (\<exists>q. node_at t q = Some c)) \<and>
   (k \<notin> courseNumber ` set (traverseInOrder t) \<longrightarrow> searchBST t k = None)"
proof -
  have frame: "snd res = h" if "searchBST_heap p k h = Some res"
    using that by (rule searchBST_heap_frame)
  have returns: "\<exists>ptr. searchBST_heap p k h = Some (Inr ptr, h) \<and>
         (case ptr of
            None \<Rightarrow> searchBST t k = None
          | Some a \<Rightarrow>
              (\<exists>n. h a = Some n \<and> courseNumber (node_course n) = k \<and>
                   searchBST t k = Some (node_course n)))"
    if rep: "tree_at h p t"
  proof -
    from searchBST_heap_refines [OF rep, of k]
    obtain ptr where run: "searchBST_heap p k h = Some (Inr ptr, h)"
      and rel: "case ptr of None \<Rightarrow> searchBST t k = None
                | Some a \<Rightarrow> (\<exists>n. h a = Some n \<and> searchBST t k = Some (node_course n))"
      by blast
    have "case ptr of
            None \<Rightarrow> searchBST t k = None
          | Some a \<Rightarrow>
              (\<exists>n. h a = Some n \<and> courseNumber (node_course n) = k \<and>
                   searchBST t k = Some (node_course n))"
    proof (cases ptr)
      case None
      with rel show ?thesis by simp
    next
      case (Some a)
      with rel obtain n where n: "h a = Some n" "searchBST t k = Some (node_course n)"
        by auto
      from search_found [OF n(2)] have "courseNumber (node_course n) = k"
        by simp
      with n Some show ?thesis by simp
    qed
    with run show ?thesis by blast
  qed
  have absent: "searchBST_heap p k h = Some (Inr None, h)"
    if rep: "tree_at h p t" and no: "k \<notin> courseNumber ` set (traverseInOrder t)"
  proof -
    from searchBST_heap_refines [OF rep, of k]
    obtain ptr where run: "searchBST_heap p k h = Some (Inr ptr, h)"
      and rel: "case ptr of None \<Rightarrow> searchBST t k = None
                | Some a \<Rightarrow> (\<exists>n. h a = Some n \<and> searchBST t k = Some (node_course n))"
      by blast
    from no have "searchBST t k = None"
      by (rule search_absent)
    with rel have "ptr = None"
      by (cases ptr) auto
    with run show ?thesis by simp
  qed
  have session: "snd (menu_details k s) = s"
    by (simp add: menu_details_def)
  have found: "\<forall>c. searchBST t k = Some c \<longrightarrow>
      courseNumber c = k \<and> (\<exists>q. node_at t q = Some c)"
    using search_found by blast
  have none: "k \<notin> courseNumber ` set (traverseInOrder t) \<longrightarrow> searchBST t k = None"
    using search_absent by blast
  from frame returns absent session found none show ?thesis
    by blast
qed

theorem search_reads_only_witness:
  "tree_at example_store (Some 1)
     (insert_all Null
        [\<lparr>courseNumber = ''B'', courseTitle = ''B1'', prerequisites = []\<rparr>,
         \<lparr>courseNumber = ''A'', courseTitle = ''A'', prerequisites = []\<rparr>]) \<and>
   searchBST_heap (Some 1) ''A'' example_store = Some (Inr (Some 2), example_store) \<and>
   snd (Inr (Some 2) :: fault + addr option, example_store) = example_store \<and>
   (\<exists>ptr. searchBST_heap (Some 1) ''A'' example_store = Some (Inr ptr, example_store) \<and>
      (case ptr of
         None \<Rightarrow>
           searchBST
             (insert_all Null
                [\<lparr>courseNumber = ''B'', courseTitle = ''B1'', prerequisites = []\<rparr>,
                 \<lparr>courseNumber = ''A'', courseTitle = ''A'', prerequisites = []\<rparr>]) ''A'' = None
       | Some a \<Rightarrow>
           (\<exists>n. example_store a = Some n \<and> courseNumber (node_course n) = ''A'' \<and>
                searchBST
                  (insert_all Null
                     [\<lparr>courseNumber = ''B'', courseTitle = ''B1'', prerequisites = []\<rparr>,
                      \<lparr>courseNumber = ''A'', courseTitle = ''A'', prerequisites = []\<rparr>]) ''A'' =
                  Some (node_course n)))) \<and>
   ''C'' \<notin> courseNumber ` set (traverseInOrder
      (insert_all Null
         [\<lparr>courseNumber = ''B'', courseTitle = ''B1'', prerequisites = []\<rparr>,
          \<lparr>courseNumber = ''A'', courseTitle = ''A'', prerequisites = []\<rparr>])) \<and>
   searchBST_heap (Some 1) ''C'' example_store = Some (Inr None, example_store) \<and>
   searchBST
     (insert_all Null
        [\<lparr>courseNumber = ''B'', courseTitle = ''B1'', prerequisites = []\<rparr>,
         \<lparr>courseNumber = ''A'', courseTitle = ''A'', prerequisites = []\<rparr>]) ''C'' = None \<and>
   searchBST
     (insert_all Null
        [\<lparr>courseNumber = ''B'', courseTitle = ''B1'', prerequisites = []\<rparr>,
         \<lparr>courseNumber = ''A'', courseTitle = ''A'', prerequisites = []\<rparr>]) ''B'' =
     Some \<lparr>courseNumber = ''B'', courseTitle = ''B1'', prerequisites = []\<rparr> \<and>
   (\<exists>q. node_at
      (insert_all Null
         [\<lparr>courseNumber = ''B'', courseTitle = ''B1'', prerequisites = []\<rparr>,
          \<lparr>courseNumber = ''A'', courseTitle = ''A'', prerequisites = []\<rparr>]) q =
      Some \<lparr>courseNumber = ''B'', courseTitle = ''B1'', prerequisites = []\<rparr>)"
proof -
  let ?b = "\<lparr>courseNumber = ''B'', courseTitle = ''B1'', prerequisites = []\<rparr>"
  let ?a = "\<lparr>courseNumber = ''A'', courseTitle = ''A'', prerequisites = []\<rparr>"
  let ?t = "insert_all Null [?b, ?a]"
  have rep: "tree_at example_store (Some 1) ?t"
    by (simp add: insert_all_def example_store_def)
  have run: "searchBST_heap (Some 1) ''A'' example_store = Some (Inr (Some 2), example_store)"
    by (simp add: searchBST_heap.simps load_node_def example_store_def)
  have no: "''C'' \<notin> courseNumber ` set (traverseInOrder ?t)"
    by (simp add: insert_all_def)
  have hit: "searchBST ?t ''B'' = Some ?b"
    by (simp add: insert_all_def)
  note at_A = search_reads_only
    [where p = "Some 1" and k = "''A''" and h = example_store and t = ?t
       and res = "(Inr (Some 2), example_store)"]
  note at_C = search_reads_only
    [where p = "Some 1" and k = "''C''" and h = example_store and t = ?t]
  note at_B = search_reads_only [where k = "''B''" and t = ?t]
  from at_A run have unchanged:
    "snd (Inr (Some 2) :: fault + addr option, example_store) = example_store"
    by blast
  from at_A rep have agrees:
    "\<exists>ptr. searchBST_heap (Some 1) ''A'' example_store = Some (Inr ptr, example_store) \<and>
      (case ptr of
         None \<Rightarrow> searchBST ?t ''A'' = None
       | Some a \<Rightarrow>
           (\<exists>n. example_store a = Some n \<and> courseNumber (node_course n) = ''A'' \<and>
                searchBST ?t ''A'' = Some (node_course n)))"
    by blast
  from at_C rep no have null:
    "searchBST_heap (Some 1) ''C'' example_store = Some (Inr None, example_store)"
    by blast
  from at_C no have miss: "searchBST ?t ''C'' = None"
    by blast
  from at_B hit have place: "\<exists>q. node_at ?t q = Some ?b"
    by blast
  from rep run unchanged agrees no null miss hit place show ?thesis
    by blast
qed

lemma load_lines_insert_all:
  "foldl load_line t ls = insert_all t (List.map_filter parse_line ls)"
  by (induction ls arbitrary: t)
     (auto simp: insert_all_def load_line_def split: option.splits)


text \<open>
  C10. An insertion puts the new record at one position where the tree had no node and
  leaves every other position as it was: no node is removed, replaced or changed. So the
  traversal of a tree built by \<open>n\<close> insertions has \<open>n\<close> records, and they are the
  inserted records, each as often as it was inserted; for the loader, they are the records
  of the lines that parse.
\<close>

theorem insertion_adds_one_node:
  "node_at t (insert_path t c) = None \<and>
   node_at (insertIntoBST t c) p = (if p = insert_path t c then Some c else node_at t p) \<and>
   length (traverseInOrder (insert_all Null cs)) = length cs \<and>
   mset (traverseInOrder (insert_all Null cs)) = mset cs \<and>
   mset (traverseInOrder (loadFromLines ls)) = mset (List.map_filter parse_line ls)"
proof -
  have m: "mset (traverseInOrder (insert_all Null zs)) = mset zs" for zs
    by (simp add: insert_all_def mset_traverse_foldl)
  have "length (traverseInOrder (insert_all Null cs)) = length cs"
    using m [of cs] by (metis size_mset)
  moreover have "mset (traverseInOrder (loadFromLines ls)) = mset (List.map_filter parse_line ls)"
    by (simp add: loadFromLines_def load_lines_insert_all m)
  ultimately show ?thesis
    using m [of cs] by (simp add: node_at_insert_path node_at_insert)
qed

subsection \<open>Splitting and loading\<close>

lemma push_prerequisites_drop: "push_prerequisites tokens i ps = ps @ drop i tokens"
proof (induction tokens i ps rule: push_prerequisites.induct)
  case (1 tokens i ps)
  show ?case
  proof (cases "i < length tokens")
    case True
    then have "push_prerequisites tokens i ps = (ps @ [tokens ! i]) @ drop (i + 1) tokens"
      using "1.IH" by (subst push_prerequisites.simps) simp
    also have "\<dots> = ps @ drop i tokens"
      using True by (simp add: Cons_nth_drop_Suc)
    finally show ?thesis .
  next
    case False
    then show ?thesis by (subst push_prerequisites.simps) simp
  qed
qed

lemma split_fields_not_Nil: "split_fields d cs \<noteq> []"
  by (induction cs) (auto split: list.splits)

lemma extract_until_eof:
  "extract_until d cs = (tok, rest, True) \<Longrightarrow> rest = [] \<and> tok = cs \<and> d \<notin> set cs"
  by (induction cs arbitrary: tok rest) (auto split: if_splits prod.splits)

lemma split_fields_extract:
  "split_fields d cs =
     (case extract_until d cs of
        (tok, rest, e) \<Rightarrow> if e then [tok] else tok # split_fields d rest)"
  by (induction cs) (auto split: prod.splits list.splits simp: split_fields_not_Nil)

lemma split_loop_not_good: "eofbit s \<or> failbit s \<Longrightarrow> split_loop s d tokens = tokens"
  by (subst split_loop.simps) (auto simp: getline_def)

lemma drop_empty_last_Cons:
  "fs \<noteq> [] \<Longrightarrow> drop_empty_last (f # fs) = f # drop_empty_last fs"
  by (simp add: drop_empty_last_def)

lemma split_loop_fields:
  "\<not> eofbit s \<Longrightarrow> \<not> failbit s \<Longrightarrow>
   split_loop s d tokens = tokens @ drop_empty_last (split_fields d (unread s))"
proof (induction s d tokens rule: split_loop.induct)
  case (1 s d tokens)
  show ?case
  proof (cases "unread s")
    case Nil
    with "1.prems" show ?thesis
      by (subst split_loop.simps) (simp add: getline_def drop_empty_last_def)
  next
    case (Cons c cs)
    obtain tok rest e where ex: "extract_until d (unread s) = (tok, rest, e)"
      by (cases "extract_until d (unread s)") auto
    let ?s' = "\<lparr>unread = rest, eofbit = e, failbit = False\<rparr>"
    from Cons "1.prems" ex have gl: "getline s d = (Some tok, ?s')"
      by (simp add: getline_def)
    then have step: "split_loop s d tokens = split_loop ?s' d (tokens @ [tok])"
      by (subst split_loop.simps) simp
    show ?thesis
    proof (cases e)
      case True
      with ex have "extract_until d (unread s) = (tok, rest, True)" by simp
      then have "rest = []" "tok = unread s" by (simp_all add: extract_until_eof)
      with Cons have "tok \<noteq> []" by simp
      from True have "split_loop ?s' d (tokens @ [tok]) = tokens @ [tok]"
        by (simp add: split_loop_not_good)
      moreover from True ex have "split_fields d (unread s) = [tok]"
        by (subst split_fields_extract) simp
      ultimately show ?thesis using step \<open>tok \<noteq> []\<close>
        by (simp add: drop_empty_last_def)
    next
      case False
      then have "split_loop ?s' d (tokens @ [tok]) =
                 (tokens @ [tok]) @ drop_empty_last (split_fields d rest)"
        using "1.IH" [OF gl [symmetric] refl] by simp
      moreover from False ex have "split_fields d (unread s) = tok # split_fields d rest"
        by (subst split_fields_extract) simp
      ultimately show ?thesis using step
        by (simp add: drop_empty_last_Cons split_fields_not_Nil)
    qed
  qed
qed

lemma splitString_fields:
  "splitString str d = drop_empty_last (split_fields d str)"
  by (simp add: splitString_def open_stream_def split_loop_fields)

lemma load_loop_split:
  "load_loop s t = foldl load_line t (split_loop s (CHR 0x0A) [])"
proof -
  have "foldl load_line t acc' = t' \<Longrightarrow>
        load_loop s t' = foldl load_line t (split_loop s (CHR 0x0A) acc')" for acc' t'
  proof (induction s "CHR 0x0A" acc' arbitrary: t' rule: split_loop.induct)
    case (1 s tokens)
    show ?case
    proof (cases "getline s (CHR 0x0A)")
      case (Pair res s')
      show ?thesis
      proof (cases res)
        case None
        with Pair "1.prems" show ?thesis
          by (subst load_loop.simps, subst split_loop.simps) simp
      next
        case (Some line)
        with Pair have gl: "(Some line, s') = getline s (CHR 0x0A)" by simp
        have "foldl load_line t (tokens @ [line]) = load_line t' line"
          using "1.prems" by simp
        from "1.hyps" [OF gl refl this] gl [symmetric] show ?thesis
          by (subst load_loop.simps, subst split_loop.simps) simp
      qed
    qed
  qed
  from this [of "[]" t] show ?thesis by simp
qed

lemma load_file_lines:
  "loadCoursesFromFile (Some content) = loadFromLines (splitString content (CHR 0x0A))"
  by (simp add: loadCoursesFromFile_def loadFromLines_def splitString_def load_loop_split)

lemma length_split_fields: "length (split_fields d s) = count_list s d + 1"
  by (induction s) (auto split: list.splits simp: split_fields_not_Nil)

lemma split_fields_single_empty: "split_fields d s = [[]] \<longleftrightarrow> s = []"
  by (cases s) (auto split: list.splits simp: split_fields_not_Nil)

lemma last_split_fields: "last (split_fields d s) = [] \<longleftrightarrow> s = [] \<or> last s = d"
  by (induction s) (auto split: list.splits simp: split_fields_not_Nil split_fields_single_empty)

lemma join_split_fields: "join_fields d (split_fields d s) = s"
proof (induction s)
  case Nil
  then show ?case by simp
next
  case (Cons c cs)
  obtain f fs where fs: "split_fields d cs = f # fs"
    using split_fields_not_Nil [of d cs] by (cases "split_fields d cs") auto
  with Cons show ?case
    by (cases fs) auto
qed

lemma split_fields_free: "d \<notin> set f \<Longrightarrow> split_fields d f = [f]"
  by (induction f) auto

lemma split_fields_append:
  "d \<notin> set f \<Longrightarrow> split_fields d (f @ d # s) = f # split_fields d s"
  by (induction f) auto

lemma split_join_fields:
  "fs \<noteq> [] \<Longrightarrow> \<forall>f \<in> set fs. d \<notin> set f \<Longrightarrow> split_fields d (join_fields d fs) = fs"
  by (induction d fs rule: join_fields.induct)
     (simp_all add: split_fields_free split_fields_append)

lemma parse_line_None: "parse_line line = None \<longleftrightarrow> length (splitString line (CHR '','')) < 2"
  by (simp add: parse_line_def Let_def)

lemma one_delimiter_two_fields:
  assumes "count_list line d = 1"
  shows "length (splitString line d) = 2 \<longleftrightarrow> last line \<noteq> d"
proof -
  from assms have ne: "line \<noteq> []" by auto
  have len: "length (split_fields d line) = 2"
    using assms by (simp add: length_split_fields)
  then have nn: "split_fields d line \<noteq> []" by auto
  show ?thesis
  proof (cases "last line = d")
    case True
    then have "last (split_fields d line) = []"
      by (simp add: last_split_fields)
    then have "splitString line d = butlast (split_fields d line)"
      using nn by (simp add: splitString_fields drop_empty_last_def)
    with len True show ?thesis by simp
  next
    case False
    with ne have "last (split_fields d line) \<noteq> []"
      by (simp add: last_split_fields)
    then have "splitString line d = split_fields d line"
      by (simp add: splitString_fields drop_empty_last_def)
    with len False show ?thesis by simp
  qed
qed

subsection \<open>Claims about splitting and loading\<close>

text \<open>
  C5. A line that splits into fewer than 2 fields gives no record and leaves the tree as
  it is, and the loader goes on with the lines after it: the tree loaded is the one loaded
  from the other lines. The file of the three lines \<open>CS101,Intro\<close>, \<open>garbage\<close> and
  \<open>CS200,Advanced,CS101\<close> loads as a tree of exactly the two records CS101 and CS200.
\<close>

theorem malformed_line_is_skipped:
  "(length (splitString line (CHR '','')) < 2 \<longrightarrow>
      parse_line line = None \<and> load_line t line = t \<and>
      loadFromLines (xs @ line # ys) = loadFromLines (xs @ ys) \<and>
      (splitString content (CHR 0x0A) = xs @ line # ys \<longrightarrow>
         loadCoursesFromFile (Some content) = loadFromLines (xs @ ys))) \<and>
   loadCoursesFromFile
     (Some (''CS101,Intro'' @ [CHR 0x0A] @ ''garbage'' @ [CHR 0x0A] @ ''CS200,Advanced,CS101'')) =
     Node \<lparr>courseNumber = ''CS101'', courseTitle = ''Intro'', prerequisites = []\<rparr> Null
       (Node \<lparr>courseNumber = ''CS200'', courseTitle = ''Advanced'', prerequisites = [''CS101'']\<rparr>
          Null Null) \<and>
   traverseInOrder (loadFromLines [''CS101,Intro'', ''garbage'', ''CS200,Advanced,CS101'']) =
     [\<lparr>courseNumber = ''CS101'', courseTitle = ''Intro'', prerequisites = []\<rparr>,
      \<lparr>courseNumber = ''CS200'', courseTitle = ''Advanced'', prerequisites = [''CS101'']\<rparr>]"
proof -
  have skip: "parse_line line = None \<and> load_line t line = t \<and>
      loadFromLines (xs @ line # ys) = loadFromLines (xs @ ys) \<and>
      (splitString content (CHR 0x0A) = xs @ line # ys \<longrightarrow>
         loadCoursesFromFile (Some content) = loadFromLines (xs @ ys))"
    if short: "length (splitString line (CHR '','')) < 2"
  proof -
    from short have none: "parse_line line = None"
      by (simp add: parse_line_None)
    then have same: "load_line u line = u" for u
      by (simp add: load_line_def)
    then have rest: "loadFromLines (xs @ line # ys) = loadFromLines (xs @ ys)"
      by (simp add: loadFromLines_def)
    then have "loadCoursesFromFile (Some content) = loadFromLines (xs @ ys)"
      if "splitString content (CHR 0x0A) = xs @ line # ys"
      using that by (simp add: load_file_lines)
    with none same rest show ?thesis by blast
  qed
  have from_file: "loadCoursesFromFile
     (Some (''CS101,Intro'' @ [CHR 0x0A] @ ''garbage'' @ [CHR 0x0A] @ ''CS200,Advanced,CS101'')) =
     Node \<lparr>courseNumber = ''CS101'', courseTitle = ''Intro'', prerequisites = []\<rparr> Null
       (Node \<lparr>courseNumber = ''CS200'', courseTitle = ''Advanced'', prerequisites = [''CS101'']\<rparr>
          Null Null)"
    by code_simp
  have records: "traverseInOrder (loadFromLines [''CS101,Intro'', ''garbage'', ''CS200,Advanced,CS101'']) =
     [\<lparr>courseNumber = ''CS101'', courseTitle = ''Intro'', prerequisites = []\<rparr>,
      \<lparr>courseNumber = ''CS200'', courseTitle = ''Advanced'', prerequisites = [''CS101'']\<rparr>]"
    by code_simp
  from skip from_file records show ?thesis by blast
qed

theorem malformed_line_is_skipped_witness:
  "length (splitString ''garbage'' (CHR '','')) < 2 \<and>
   splitString (''CS101,Intro'' @ [CHR 0x0A] @ ''garbage'' @ [CHR 0x0A] @ ''CS200,Advanced,CS101'')
     (CHR 0x0A) = [''CS101,Intro''] @ ''garbage'' # [''CS200,Advanced,CS101''] \<and>
   parse_line ''garbage'' = None \<and>
   load_line Null ''garbage'' = Null \<and>
   loadFromLines ([''CS101,Intro''] @ ''garbage'' # [''CS200,Advanced,CS101'']) =
     loadFromLines ([''CS101,Intro''] @ [''CS200,Advanced,CS101'']) \<and>
   loadCoursesFromFile
     (Some (''CS101,Intro'' @ [CHR 0x0A] @ ''garbage'' @ [CHR 0x0A] @ ''CS200,Advanced,CS101'')) =
     loadFromLines ([''CS101,Intro''] @ [''CS200,Advanced,CS101''])"
proof -
  have short: "length (splitString ''garbage'' (CHR '','')) < 2"
    by code_simp
  have lines: "splitString
     (''CS101,Intro'' @ [CHR 0x0A] @ ''garbage'' @ [CHR 0x0A] @ ''CS200,Advanced,CS101'')
     (CHR 0x0A) = [''CS101,Intro''] @ ''garbage'' # [''CS200,Advanced,CS101'']"
    by code_simp
  from malformed_line_is_skipped
    [where line = "''garbage''" and t = Null and xs = "[''CS101,Intro'']"
       and ys = "[''CS200,Advanced,CS101'']"
       and content = "''CS101,Intro'' @ [CHR 0x0A] @ ''garbage'' @ [CHR 0x0A] @ ''CS200,Advanced,CS101''"]
    short lines
  show ?thesis by blast
qed

text \<open>
  C6, as the claim states it, fails at the line \<open>A,\<close>: it has exactly one comma, yet
  the split gives the single field \<open>A\<close> and not the two fields \<open>A\<close> and the empty
  string, so the line has fewer than 2 fields and is rejected.
\<close>

theorem trailing_empty_field_counterexample:
  "count_list ''A,'' (CHR '','') = 1 \<and>
   splitString ''A,'' (CHR '','') = [''A''] \<and>
   splitString ''A,'' (CHR '','') \<noteq> [''A'', ''''] \<and>
   length (splitString ''A,'' (CHR '','')) \<noteq> 2 \<and>
   parse_line ''A,'' = None"
  by code_simp

text \<open>
  C6, amended. For every input line, the parser splits it on the comma into an ordered
  sequence of fields in which every empty field is preserved as an empty string, except a
  trailing one: the fields are those between the delimiters (which joined by the delimiter
  give the line back), less the last one when it is empty. Consequently a line with
  exactly one comma has 2 fields, and is accepted, exactly when the comma is not its last
  character; the line \<open>A,\<close> has the single field \<open>A\<close>.
\<close>

theorem split_keeps_fields_but_empty_last:
  "splitString line d = drop_empty_last (split_fields d line) \<and>
   join_fields d (split_fields d line) = line \<and>
   length (split_fields d line) = count_list line d + 1 \<and>
   (fs \<noteq> [] \<and> (\<forall>f \<in> set fs. d \<notin> set f) \<longrightarrow>
      splitString (join_fields d fs) d = (if last fs = [] then butlast fs else fs)) \<and>
   (count_list line (CHR '','') = 1 \<longrightarrow>
      (length (splitString line (CHR '','')) = 2 \<longleftrightarrow> last line \<noteq> CHR '','') \<and>
      (parse_line line \<noteq> None \<longleftrightarrow> last line \<noteq> CHR '','')) \<and>
   splitString ''A,'' (CHR '','') = [''A'']"
proof -
  have joined: "splitString (join_fields d fs) d = (if last fs = [] then butlast fs else fs)"
    if "fs \<noteq> []" and "\<forall>f \<in> set fs. d \<notin> set f"
    using that by (simp add: splitString_fields split_join_fields drop_empty_last_def)
  have one: "(length (splitString line (CHR '','')) = 2 \<longleftrightarrow> last line \<noteq> CHR '','') \<and>
      (parse_line line \<noteq> None \<longleftrightarrow> last line \<noteq> CHR '','')"
    if c: "count_list line (CHR '','') = 1"
  proof -
    have two: "length (splitString line (CHR '','')) = 2 \<longleftrightarrow> last line \<noteq> CHR '',''"
      using c by (rule one_delimiter_two_fields)
    have "length (splitString line (CHR '','')) \<le> 2"
      using c by (simp add: splitString_fields drop_empty_last_def length_split_fields)
    then have "parse_line line \<noteq> None \<longleftrightarrow> length (splitString line (CHR '','')) = 2"
      by (auto simp: parse_line_None)
    with two show ?thesis by simp
  qed
  have example: "splitString ''A,'' (CHR '','') = [''A'']"
    by code_simp
  from joined one example show ?thesis
    by (simp add: splitString_fields join_split_fields length_split_fields)
qed

theorem split_keeps_fields_but_empty_last_witness:
  "[''A'', '''', ''B'', ''''] \<noteq> [] \<and>
   CHR '','' \<notin> set ''A'' \<and> CHR '','' \<notin> set '''' \<and> CHR '','' \<notin> set ''B'' \<and>
   splitString (join_fields (CHR '','') [''A'', '''', ''B'', '''']) (CHR '','') = [''A'', '''', ''B''] \<and>
   count_list ''A,B'' (CHR '','') = 1 \<and>
   last ''A,B'' \<noteq> CHR '','' \<and>
   length (splitString ''A,B'' (CHR '','')) = 2 \<and>
   parse_line ''A,B'' \<noteq> None"
proof -
  have fields: "[''A'', '''', ''B'', ''''] \<noteq> [] \<and>
      (\<forall>f \<in> set [''A'', '''', ''B'', '''']. CHR '','' \<notin> set f)"
    by simp
  have one: "count_list ''A,B'' (CHR '','') = 1" and last: "last ''A,B'' \<noteq> CHR '',''"
    by simp_all
  from split_keeps_fields_but_empty_last
    [where fs = "[''A'', '''', ''B'', '''']" and d = "CHR '',''" and line = "''A,B''"]
    fields one last
  show ?thesis by (simp add: drop_empty_last_def)
qed

text \<open>
  C7, as the claim states it, fails: loading a readable file with no line in it, in a
  fresh session, leaves the session that loading a file that cannot be opened leaves. The
  menu writes the same line for both, that of a failure, the loaded flag stays unset, and
  listing the courses afterwards is refused for want of loaded data.
\<close>

theorem empty_load_counterexample:
  "snd (menu_load (Some []) initial_session) = snd (menu_load None initial_session) \<and>
   fst (menu_load (Some []) initial_session) = ''Failed to load course data.'' @ [CHR 0x0A] \<and>
   fst (menu_load None initial_session) = ''Failed to load course data.'' @ [CHR 0x0A] \<and>
   dataLoaded (snd (menu_load (Some []) initial_session)) = False \<and>
   fst (menu_list (snd (menu_load (Some []) initial_session))) =
     ''Error: No data loaded.'' @ [CHR 0x0A]"
  by code_simp

text \<open>
  C7, amended. Loading a readable source with zero lines yields an empty tree, on which
  the traversal yields the empty sequence and a search for any identifier returns
  not-found; the loader's result is the null root it also returns for a source that cannot
  be opened, and the surrounding application does not tell the two apart: the menu writes
  that the load failed and leaves the loaded flag as it was, so that the data counts as
  loaded only if an earlier load had set the flag.
\<close>

theorem empty_load_is_empty_tree:
  "loadCoursesFromFile (Some []) = Null \<and>
   traverseInOrder (loadCoursesFromFile (Some [])) = [] \<and>
   searchBST (loadCoursesFromFile (Some [])) k = None \<and>
   loadCoursesFromFile (Some []) = loadCoursesFromFile None \<and>
   snd (menu_load (Some []) s) = snd (menu_load None s) \<and>
   fst (menu_load (Some []) s) = ''Failed to load course data.'' @ [CHR 0x0A] \<and>
   root (snd (menu_load (Some []) s)) = Null \<and>
   dataLoaded (snd (menu_load (Some []) s)) = dataLoaded s"
proof -
  have empty: "loadCoursesFromFile (Some []) = Null"
    by code_simp
  have closed: "loadCoursesFromFile None = Null"
    by (simp add: loadCoursesFromFile_def)
  show ?thesis
    by (simp add: empty closed menu_load_def)
qed

text \<open>
  C8. A line with at least 2 fields gives the record whose identifier is field 0, whose
  title is field 1 and whose prerequisites are the fields from index 2 on, in their order,
  and that record is inserted whatever the tree holds; with exactly 2 fields the
  prerequisites are empty. The line \<open>CS200,Advanced,CS101,CS102\<close> gives the
  prerequisites CS101, CS102, also when loaded into the empty tree.
\<close>

theorem prerequisites_pass_through:
  "(2 \<le> length (splitString line (CHR '','')) \<longrightarrow>
      parse_line line =
        Some \<lparr>courseNumber = splitString line (CHR '','') ! 0,
              courseTitle = splitString line (CHR '','') ! 1,
              prerequisites = drop 2 (splitString line (CHR '',''))\<rparr> \<and>
      load_line t line =
        insertIntoBST t
          \<lparr>courseNumber = splitString line (CHR '','') ! 0,
           courseTitle = splitString line (CHR '','') ! 1,
           prerequisites = drop 2 (splitString line (CHR '',''))\<rparr>) \<and>
   (length (splitString line (CHR '','')) = 2 \<longrightarrow>
      (\<exists>c. parse_line line = Some c \<and> prerequisites c = [])) \<and>
   parse_line ''CS200,Advanced,CS101,CS102'' =
     Some \<lparr>courseNumber = ''CS200'', courseTitle = ''Advanced'',
           prerequisites = [''CS101'', ''CS102'']\<rparr> \<and>
   load_line Null ''CS200,Advanced,CS101,CS102'' =
     Node \<lparr>courseNumber = ''CS200'', courseTitle = ''Advanced'',
           prerequisites = [''CS101'', ''CS102'']\<rparr> Null Null"
proof -
  let ?tokens = "splitString line (CHR '','')"
  let ?c = "\<lparr>courseNumber = ?tokens ! 0, courseTitle = ?tokens ! 1,
             prerequisites = drop 2 ?tokens\<rparr>"
  have parsed: "parse_line line = Some ?c" if "2 \<le> length ?tokens"
    using that by (simp add: parse_line_def Let_def push_prerequisites_drop)
  then have loaded: "load_line t line = insertIntoBST t ?c" if "2 \<le> length ?tokens"
    using that by (simp add: load_line_def)
  have two: "\<exists>c. parse_line line = Some c \<and> prerequisites c = []" if "length ?tokens = 2"
    using that parsed by simp
  have example: "parse_line ''CS200,Advanced,CS101,CS102'' =
     Some \<lparr>courseNumber = ''CS200'', courseTitle = ''Advanced'',
           prerequisites = [''CS101'', ''CS102'']\<rparr>"
    by code_simp
  then have example_load: "load_line Null ''CS200,Advanced,CS101,CS102'' =
     Node \<lparr>courseNumber = ''CS200'', courseTitle = ''Advanced'',
           prerequisites = [''CS101'', ''CS102'']\<rparr> Null Null"
    by (simp add: load_line_def)
  from parsed loaded two example example_load show ?thesis
    by blast
qed

theorem prerequisites_pass_through_witness:
  "2 \<le> length (splitString ''CS200,Advanced,CS101,CS102'' (CHR '','')) \<and>
   (\<exists>c. parse_line ''CS200,Advanced,CS101,CS102'' = Some c \<and>
        prerequisites c = drop 2 (splitString ''CS200,Advanced,CS101,CS102'' (CHR '',''))) \<and>
   length (splitString ''CS101,Intro'' (CHR '','')) = 2 \<and>
   (\<exists>c. parse_line ''CS101,Intro'' = Some c \<and> prerequisites c = [])"
proof -
  have four: "2 \<le> length (splitString ''CS200,Advanced,CS101,CS102'' (CHR '',''))"
    by code_simp
  have two: "length (splitString ''CS101,Intro'' (CHR '','')) = 2"
    by code_simp
  from prerequisites_pass_through [where line = "''CS200,Advanced,CS101,CS102''"] four
  have "\<exists>c. parse_line ''CS200,Advanced,CS101,CS102'' = Some c \<and>
        prerequisites c = drop 2 (splitString ''CS200,Advanced,CS101,CS102'' (CHR '',''))"
    by simp
  moreover from prerequisites_pass_through [where line = "''CS101,Intro''"] two
  have "\<exists>c. parse_line ''CS101,Intro'' = Some c \<and> prerequisites c = []"
    by blast
  ultimately show ?thesis
    using four two by blast
qed

end
